theory Spec2Isabelle
  imports Complex_Main "HOL-Library.Monad_Syntax"
begin

section \<open>Calendar aggregation of bookings (load\_data.py)\<close>

text \<open>
  The development embeds \<^verbatim>\<open>compute_monthly_occupancy_revpar\<close> of
  \<^verbatim>\<open>src/load_data.py\<close>. Modelling decisions:
  \<^item> a timestamp is the number of days since 1970-01-01 (\<open>int\<close>). The columns
    \<^verbatim>\<open>prichod\<close> and \<^verbatim>\<open>odchod\<close> are SQL dates, so they hold midnight timestamps and
    \<^verbatim>\<open>normalize()\<close> leaves them unchanged;
  \<^item> a data frame is the list of its rows, in row order; the dtype of a column is not
    modelled;
  \<^item> prices and commissions are rational numbers and the arithmetic on them is exact:
    the rounding of binary floating point is not modelled;
  \<^item> the module-level configuration read from the environment is a record passed to the
    function; a second model of the function, on a store of objects, says what a call
    writes;
  \<^item> \<^verbatim>\<open>raise SystemExit\<close> and Python's \<^verbatim>\<open>ZeroDivisionError\<close> are values of the
    type \<open>error\<close>.
\<close>

subsection \<open>Data\<close>

record booking =
  prichod :: int
  odchod :: int
  pocet_noci :: int
  cena :: rat
  provizia :: rat

record module_globals =
  OUTPUT_DIR :: string
  FILTER_START :: int
  FILTER_END_EXCL :: int

datatype error = SystemExit | ZeroDivisionError

text \<open>
  An element of a float column after an element-wise division of two columns: pandas
  raises nothing when the divisor is zero, the quotient is an infinity or NaN.
\<close>

datatype npfloat = Finite rat | PosInf | NegInf | NaN

definition series_div :: "rat \<Rightarrow> rat \<Rightarrow> npfloat" where
  "series_div a b =
     (if b \<noteq> 0 then Finite (a / b)
      else if 0 < a then PosInf
      else if a < 0 then NegInf
      else NaN)"

record daily_row =
  date :: int
  cal_month :: int
  day_revenue_gross :: rat
  day_commission :: rat
  occupied_flag :: nat

record month_agg =
  agg_month :: int
  agg_available_nights :: nat
  agg_occupied_nights :: nat
  agg_revenue_gross :: rat
  agg_commission :: rat

record monthly_row =
  month :: int
  available_nights :: nat
  occupied_nights :: nat
  revenue_gross :: rat
  commission :: rat
  revenue_net :: rat
  occupancy_pct :: npfloat
  revpar_gross :: npfloat
  revpar_net :: npfloat
  year :: int
  month_num :: int

subsection \<open>Dates\<close>

text \<open>
  \<^verbatim>\<open>astype("datetime64[M]")\<close> truncates a day to its month of the proleptic Gregorian
  calendar; a \<^verbatim>\<open>datetime64[M]\<close> value is the number of months since 1970-01. The
  conversion is library code: it is written here as the usual era-based computation of
  the civil date of a day number.
\<close>

definition civil_from_days :: "int \<Rightarrow> int \<times> int \<times> int" where
  "civil_from_days z0 =
     (let z = z0 + 719468;
          era = z div 146097;
          doe = z - era * 146097;
          yoe = (doe - doe div 1460 + doe div 36524 - doe div 146096) div 365;
          y = yoe + era * 400;
          doy = doe - (365 * yoe + yoe div 4 - yoe div 100);
          mp = (5 * doy + 2) div 153;
          d = doy - (153 * mp + 2) div 5 + 1;
          m = (if mp < 10 then mp + 3 else mp - 9)
      in (if m \<le> 2 then y + 1 else y, m, d))"

definition days_from_civil :: "int \<Rightarrow> int \<Rightarrow> int \<Rightarrow> int" where
  "days_from_civil y0 m d =
     (let y = (if m \<le> 2 then y0 - 1 else y0);
          era = y div 400;
          yoe = y - era * 400;
          doy = (153 * (if 2 < m then m - 3 else m + 9) + 2) div 5 + d - 1;
          doe = yoe * 365 + yoe div 4 - yoe div 100 + doy
      in era * 146097 + doe - 719468)"

definition month_of :: "int \<Rightarrow> int" where
  "month_of d = (case civil_from_days d of (y, m, _) \<Rightarrow> 12 * (y - 1970) + (m - 1))"

definition normalize :: "int \<Rightarrow> int" where
  "normalize t = t"

definition date_range :: "int \<Rightarrow> int \<Rightarrow> int list" where
  "date_range a b = [a..b]"

subsection \<open>Column reductions and grouping\<close>

fun col_min :: "int list \<Rightarrow> int" where
  "col_min [] = 0"
| "col_min [x] = x"
| "col_min (x # y # ys) = min x (col_min (y # ys))"

fun col_max :: "int list \<Rightarrow> int" where
  "col_max [] = 0"
| "col_max [x] = x"
| "col_max (x # y # ys) = max x (col_max (y # ys))"

text \<open>\<^verbatim>\<open>groupby\<close> sorts the group keys (\<^verbatim>\<open>sort=True\<close> is the default).\<close>

definition groupby_keys :: "('a \<Rightarrow> int) \<Rightarrow> 'a list \<Rightarrow> int list" where
  "groupby_keys f xs = sort (remdups (map f xs))"

subsection \<open>The window and the calendar\<close>

definition start_date :: "booking list \<Rightarrow> int" where
  "start_date df_b = normalize (col_min (map prichod df_b))"

definition end_limit :: "module_globals \<Rightarrow> int" where
  "end_limit g = FILTER_END_EXCL g - 1"

definition end_date :: "module_globals \<Rightarrow> booking list \<Rightarrow> int" where
  "end_date g df_b = min (normalize (col_max (map odchod df_b) - 1)) (end_limit g)"

definition calendar :: "module_globals \<Rightarrow> booking list \<Rightarrow> (int \<times> int) list" where
  "calendar g df_b = map (\<lambda>d. (d, month_of d)) (date_range (start_date df_b) (end_date g df_b))"

subsection \<open>Expansion of the bookings into nights\<close>

text \<open>
  The inner loop over the nights of one booking appends to \<open>rows\<close>; a night after
  \<open>end_date\<close> is skipped by \<^verbatim>\<open>continue\<close>.
\<close>

fun nights_loop :: "int \<Rightarrow> rat \<Rightarrow> rat \<Rightarrow> int list \<Rightarrow> (int \<times> rat \<times> rat) list \<Rightarrow> (int \<times> rat \<times> rat) list" where
  "nights_loop e daily_rev daily_comm [] rows = rows"
| "nights_loop e daily_rev daily_comm (d0 # ds) rows =
     (let d = normalize d0
      in if e < d then nights_loop e daily_rev daily_comm ds rows
         else nights_loop e daily_rev daily_comm ds (rows @ [(d, daily_rev, daily_comm)]))"

text \<open>
  The body of the outer loop for one booking. The two quotients are Python scalar
  divisions, which raise \<^verbatim>\<open>ZeroDivisionError\<close> on a zero divisor before any night is
  visited.
\<close>

definition booking_step :: "int \<Rightarrow> booking \<Rightarrow> (int \<times> rat \<times> rat) list \<Rightarrow> error + (int \<times> rat \<times> rat) list" where
  "booking_step e r rows =
     (let nights = date_range (prichod r) (odchod r - 1)
      in if pocet_noci r = 0 then Inl ZeroDivisionError
         else Inr (nights_loop e (cena r / of_int (pocet_noci r))
                     (provizia r / of_int (pocet_noci r)) nights rows))"

fun bookings_loop :: "int \<Rightarrow> booking list \<Rightarrow> (int \<times> rat \<times> rat) list \<Rightarrow> error + (int \<times> rat \<times> rat) list" where
  "bookings_loop e [] rows = Inr rows"
| "bookings_loop e (r # rs) rows =
     (case booking_step e r rows of
        Inl err \<Rightarrow> Inl err
      | Inr rows' \<Rightarrow> bookings_loop e rs rows')"

subsection \<open>Daily aggregation\<close>

text \<open>
  \<^verbatim>\<open>daily.groupby("date").agg(...)\<close>, then \<^verbatim>\<open>occupied_flag\<close> from \<^verbatim>\<open>occ_cnt\<close> and
  the drop of \<^verbatim>\<open>occ_cnt\<close>. A row is (date, revenue\_gross, commission, occupied\_flag).
\<close>

definition daily_agg :: "(int \<times> rat \<times> rat) list \<Rightarrow> (int \<times> rat \<times> rat \<times> nat) list" where
  "daily_agg daily =
     map (\<lambda>d. let grp = filter (\<lambda>r. fst r = d) daily;
                  occ_cnt = length grp
              in (d, sum_list (map (\<lambda>r. fst (snd r)) grp),
                     sum_list (map (\<lambda>r. snd (snd r)) grp),
                     if 0 < occ_cnt then 1 else 0))
         (groupby_keys fst daily)"

text \<open>
  \<^verbatim>\<open>calendar.merge(daily_agg, on="date", how="left")\<close>: every row of the calendar, in
  order, once for each row of \<open>daily_agg\<close> with the same date, and once with missing
  values when there is none.
\<close>

definition merge_left :: "(int \<times> int) list \<Rightarrow> (int \<times> rat \<times> rat \<times> nat) list \<Rightarrow> (int \<times> int \<times> (rat \<times> rat \<times> nat) option) list" where
  "merge_left cal agg =
     concat (map (\<lambda>(d, m).
        (case filter (\<lambda>a. fst a = d) agg of
           [] \<Rightarrow> [(d, m, None)]
         | ms \<Rightarrow> map (\<lambda>a. (d, m, Some (snd a))) ms)) cal)"

definition fillna0 :: "int \<times> int \<times> (rat \<times> rat \<times> nat) option \<Rightarrow> daily_row" where
  "fillna0 row =
     (case row of
        (d, m, None) \<Rightarrow>
          \<lparr>date = d, cal_month = m, day_revenue_gross = 0, day_commission = 0, occupied_flag = 0\<rparr>
      | (d, m, Some (gross, comm, flag)) \<Rightarrow>
          \<lparr>date = d, cal_month = m, day_revenue_gross = gross, day_commission = comm,
           occupied_flag = flag\<rparr>)"

definition daily_full :: "module_globals \<Rightarrow> booking list \<Rightarrow> error + daily_row list" where
  "daily_full g df_b =
     (if df_b = [] then Inl SystemExit
      else case bookings_loop (end_date g df_b) df_b [] of
             Inl err \<Rightarrow> Inl err
           | Inr rows \<Rightarrow> Inr (map fillna0 (merge_left (calendar g df_b) (daily_agg rows))))"

subsection \<open>Monthly rollup\<close>

definition monthly_agg :: "daily_row list \<Rightarrow> month_agg list" where
  "monthly_agg df =
     map (\<lambda>m. let grp = filter (\<lambda>r. cal_month r = m) df
              in \<lparr>agg_month = m,
                  agg_available_nights = length grp,
                  agg_occupied_nights = sum_list (map occupied_flag grp),
                  agg_revenue_gross = sum_list (map day_revenue_gross grp),
                  agg_commission = sum_list (map day_commission grp)\<rparr>)
         (groupby_keys cal_month df)"

definition add_kpi_columns :: "month_agg \<Rightarrow> monthly_row" where
  "add_kpi_columns a =
     (let net = agg_revenue_gross a - agg_commission a
      in \<lparr>month = agg_month a,
          available_nights = agg_available_nights a,
          occupied_nights = agg_occupied_nights a,
          revenue_gross = agg_revenue_gross a,
          commission = agg_commission a,
          revenue_net = net,
          occupancy_pct =
            series_div (100 * of_nat (agg_occupied_nights a)) (of_nat (agg_available_nights a)),
          revpar_gross = series_div (agg_revenue_gross a) (of_nat (agg_available_nights a)),
          revpar_net = series_div net (of_nat (agg_available_nights a)),
          year = 1970 + agg_month a div 12,
          month_num = agg_month a mod 12 + 1\<rparr>)"

definition compute_monthly_occupancy_revpar :: "module_globals \<Rightarrow> booking list \<Rightarrow> error + monthly_row list" where
  "compute_monthly_occupancy_revpar g df_b =
     (case daily_full g df_b of
        Inl err \<Rightarrow> Inl err
      | Inr df \<Rightarrow> Inr (sort_key month (map add_kpi_columns (monthly_agg df))))"

subsection \<open>The function on a store\<close>

text \<open>
  For what a call leaves behind, the same function is written a second time as a
  transformer of a store: the module state, and the objects that exist (frames and the
  list \<^verbatim>\<open>rows\<close>), each at an address. Creating a frame takes a fresh address; an
  assignment to a column of a frame, and \<^verbatim>\<open>rows.append\<close>, write the object at its
  address; every operand is read from the store. The result is \<open>None\<close> where an
  address does not hold an object of the kind that the statement needs.
\<close>

datatype pyobject =
    Frame_bookings "booking list"
  | Frame_dates "int list"
  | Frame_calendar "(int \<times> int) list"
  | List_rows "(int \<times> rat \<times> rat) list"
  | Frame_daily "(int \<times> rat \<times> rat) list"
  | Frame_grouped "(int \<times> rat \<times> rat \<times> nat) list"
  | Frame_flagged "(int \<times> rat \<times> rat \<times> nat \<times> nat) list"
  | Frame_daily_agg "(int \<times> rat \<times> rat \<times> nat) list"
  | Frame_merged "(int \<times> int \<times> (rat \<times> rat \<times> nat) option) list"
  | Frame_daily_full "daily_row list"
  | Frame_month_agg "month_agg list"
  | Frame_monthly "monthly_row list"

record store =
  module_state :: module_globals
  objects :: "nat \<Rightarrow> pyobject option"
  fresh :: nat

definition alloc :: "pyobject \<Rightarrow> store \<Rightarrow> nat \<times> store" where
  "alloc v s = (fresh s, s\<lparr>objects := (objects s)(fresh s \<mapsto> v), fresh := Suc (fresh s)\<rparr>)"

definition assign :: "nat \<Rightarrow> pyobject \<Rightarrow> store \<Rightarrow> store" where
  "assign a v s = s\<lparr>objects := (objects s)(a \<mapsto> v)\<rparr>"

text \<open>
  \<^verbatim>\<open>groupby("date").agg(...)\<close>, the assignment of \<^verbatim>\<open>occupied_flag\<close> and the drop of
  \<^verbatim>\<open>occ_cnt\<close>, one by one.
\<close>

definition daily_groupby :: "(int \<times> rat \<times> rat) list \<Rightarrow> (int \<times> rat \<times> rat \<times> nat) list" where
  "daily_groupby daily =
     map (\<lambda>d. let grp = filter (\<lambda>r. fst r = d) daily
              in (d, sum_list (map (\<lambda>r. fst (snd r)) grp),
                     sum_list (map (\<lambda>r. snd (snd r)) grp),
                     length grp))
         (groupby_keys fst daily)"

definition with_occupied_flag :: "(int \<times> rat \<times> rat \<times> nat) list \<Rightarrow> (int \<times> rat \<times> rat \<times> nat \<times> nat) list" where
  "with_occupied_flag agg =
     map (\<lambda>(d, gross, comm, occ_cnt). (d, gross, comm, occ_cnt, if 0 < occ_cnt then 1 else 0)) agg"

definition drop_occ_cnt :: "(int \<times> rat \<times> rat \<times> nat \<times> nat) list \<Rightarrow> (int \<times> rat \<times> rat \<times> nat) list" where
  "drop_occ_cnt agg = map (\<lambda>(d, gross, comm, occ_cnt, flag). (d, gross, comm, flag)) agg"

text \<open>The two loops, appending to the list at the address \<open>rows\<close>.\<close>

fun nights_loop_st :: "nat \<Rightarrow> int \<Rightarrow> rat \<Rightarrow> rat \<Rightarrow> int list \<Rightarrow> store \<Rightarrow> store option" where
  "nights_loop_st rows e daily_rev daily_comm [] s = Some s"
| "nights_loop_st rows e daily_rev daily_comm (d0 # ds) s =
     (let d = normalize d0
      in if e < d then nights_loop_st rows e daily_rev daily_comm ds s
         else (case objects s rows of
                 Some (List_rows xs) \<Rightarrow>
                   nights_loop_st rows e daily_rev daily_comm ds
                     (assign rows (List_rows (xs @ [(d, daily_rev, daily_comm)])) s)
               | _ \<Rightarrow> None))"

definition booking_step_st :: "nat \<Rightarrow> int \<Rightarrow> booking \<Rightarrow> store \<Rightarrow> ((error + unit) \<times> store) option" where
  "booking_step_st rows e r s =
     (let nights = date_range (prichod r) (odchod r - 1)
      in if pocet_noci r = 0 then Some (Inl ZeroDivisionError, s)
         else map_option (Pair (Inr ()))
                (nights_loop_st rows e (cena r / of_int (pocet_noci r))
                   (provizia r / of_int (pocet_noci r)) nights s))"

fun bookings_loop_st :: "nat \<Rightarrow> int \<Rightarrow> booking list \<Rightarrow> store \<Rightarrow> ((error + unit) \<times> store) option" where
  "bookings_loop_st rows e [] s = Some (Inr (), s)"
| "bookings_loop_st rows e (r # rs) s =
     (case booking_step_st rows e r s of
        None \<Rightarrow> None
      | Some (Inl err, s') \<Rightarrow> Some (Inl err, s')
      | Some (Inr _, s') \<Rightarrow> bookings_loop_st rows e rs s')"

text \<open>
  The statements on frames, in the order of the source. The three \<^verbatim>\<open>fillna\<close>
  assignments write the same frame and are one step, as are the assignments of the
  columns of \<^verbatim>\<open>monthly\<close>.
\<close>

definition set_calendar_month :: "nat \<Rightarrow> store \<Rightarrow> store option" where
  "set_calendar_month cal s =
     (case objects s cal of
        Some (Frame_dates ds) \<Rightarrow> Some (assign cal (Frame_calendar (map (\<lambda>d. (d, month_of d)) ds)) s)
      | _ \<Rightarrow> None)"

definition new_daily :: "nat \<Rightarrow> store \<Rightarrow> (nat \<times> store) option" where
  "new_daily rows s =
     (case objects s rows of
        Some (List_rows xs) \<Rightarrow> Some (alloc (Frame_daily xs) s)
      | _ \<Rightarrow> None)"

definition groupby_date :: "nat \<Rightarrow> store \<Rightarrow> (nat \<times> store) option" where
  "groupby_date daily s =
     (case objects s daily of
        Some (Frame_daily xs) \<Rightarrow> Some (alloc (Frame_grouped (daily_groupby xs)) s)
      | _ \<Rightarrow> None)"

definition set_occupied_flag :: "nat \<Rightarrow> store \<Rightarrow> store option" where
  "set_occupied_flag agg s =
     (case objects s agg of
        Some (Frame_grouped xs) \<Rightarrow> Some (assign agg (Frame_flagged (with_occupied_flag xs)) s)
      | _ \<Rightarrow> None)"

definition drop_column :: "nat \<Rightarrow> store \<Rightarrow> (nat \<times> store) option" where
  "drop_column agg s =
     (case objects s agg of
        Some (Frame_flagged xs) \<Rightarrow> Some (alloc (Frame_daily_agg (drop_occ_cnt xs)) s)
      | _ \<Rightarrow> None)"

definition merge_frames :: "nat \<Rightarrow> nat \<Rightarrow> store \<Rightarrow> (nat \<times> store) option" where
  "merge_frames cal agg s =
     (case (objects s cal, objects s agg) of
        (Some (Frame_calendar c), Some (Frame_daily_agg a)) \<Rightarrow>
          Some (alloc (Frame_merged (merge_left c a)) s)
      | _ \<Rightarrow> None)"

definition fillna_columns :: "nat \<Rightarrow> store \<Rightarrow> store option" where
  "fillna_columns full s =
     (case objects s full of
        Some (Frame_merged xs) \<Rightarrow> Some (assign full (Frame_daily_full (map fillna0 xs)) s)
      | _ \<Rightarrow> None)"

definition groupby_month :: "nat \<Rightarrow> store \<Rightarrow> (nat \<times> store) option" where
  "groupby_month full s =
     (case objects s full of
        Some (Frame_daily_full df) \<Rightarrow> Some (alloc (Frame_month_agg (monthly_agg df)) s)
      | _ \<Rightarrow> None)"

definition set_kpi_columns :: "nat \<Rightarrow> store \<Rightarrow> store option" where
  "set_kpi_columns monthly s =
     (case objects s monthly of
        Some (Frame_month_agg ms) \<Rightarrow> Some (assign monthly (Frame_monthly (map add_kpi_columns ms)) s)
      | _ \<Rightarrow> None)"

definition sort_values :: "nat \<Rightarrow> store \<Rightarrow> (nat \<times> store) option" where
  "sort_values monthly s =
     (case objects s monthly of
        Some (Frame_monthly ms) \<Rightarrow> Some (alloc (Frame_monthly (sort_key month ms)) s)
      | _ \<Rightarrow> None)"

definition build_tables :: "nat \<Rightarrow> nat \<Rightarrow> store \<Rightarrow> (nat \<times> store) option" where
  "build_tables cal rows s0 =
     do {
       (daily, s) \<leftarrow> new_daily rows s0;
       (daily_agg0, s) \<leftarrow> groupby_date daily s;
       s \<leftarrow> set_occupied_flag daily_agg0 s;
       (daily_agg1, s) \<leftarrow> drop_column daily_agg0 s;
       (full, s) \<leftarrow> merge_frames cal daily_agg1 s;
       s \<leftarrow> fillna_columns full s;
       (monthly, s) \<leftarrow> groupby_month full s;
       s \<leftarrow> set_kpi_columns monthly s;
       sort_values monthly s
     }"

definition run_compute :: "nat \<Rightarrow> store \<Rightarrow> ((error + nat) \<times> store) option" where
  "run_compute df_b s0 =
     (case objects s0 df_b of
        Some (Frame_bookings bs) \<Rightarrow>
          if bs = [] then Some (Inl SystemExit, s0)
          else
            (let start_d = start_date bs;
                 end_d = end_date (module_state s0) bs;
                 (cal, s1) = alloc (Frame_dates (date_range start_d end_d)) s0
             in do {
               s2 \<leftarrow> set_calendar_month cal s1;
               let (rows, s3) = alloc (List_rows []) s2;
               (r, s4) \<leftarrow> bookings_loop_st rows end_d bs s3;
               (case r of
                  Inl err \<Rightarrow> Some (Inl err, s4)
                | Inr _ \<Rightarrow> map_option (\<lambda>(out, s5). (Inr out, s5)) (build_tables cal rows s4))
             })
      | _ \<Rightarrow> None)"

text \<open>What the caller finds at the returned address.\<close>

definition returned :: "store \<Rightarrow> error + nat \<Rightarrow> (error + monthly_row list) option" where
  "returned s r =
     (case r of
        Inl err \<Rightarrow> Some (Inl err)
      | Inr out \<Rightarrow> (case objects s out of Some (Frame_monthly ms) \<Rightarrow> Some (Inr ms) | _ \<Rightarrow> None))"

subsection \<open>Vocabulary of the statements\<close>

text \<open>
  The nights of a booking that are kept, and the allocation tuples they stand for. These
  two definitions are not code of the program: the loops above are compared with them.
\<close>

definition clamped_nights :: "int \<Rightarrow> booking \<Rightarrow> int list" where
  "clamped_nights e r = filter (\<lambda>d. d \<le> e) [prichod r..odchod r - 1]"

definition allocations :: "int \<Rightarrow> booking \<Rightarrow> (int \<times> rat \<times> rat) list" where
  "allocations e r =
     map (\<lambda>d. (d, cena r / of_int (pocet_noci r), provizia r / of_int (pocet_noci r)))
       (clamped_nights e r)"

text \<open>
  All allocation tuples of a booking list, and the record of the daily table that a list
  of allocation tuples gives at one date.
\<close>

definition expanded :: "module_globals \<Rightarrow> booking list \<Rightarrow> (int \<times> rat \<times> rat) list" where
  "expanded g df_b = concat (map (allocations (end_date g df_b)) df_b)"

definition day_record :: "(int \<times> rat \<times> rat) list \<Rightarrow> int \<Rightarrow> daily_row" where
  "day_record rows d =
     \<lparr>date = d, cal_month = month_of d,
      day_revenue_gross = sum_list (map (\<lambda>r. fst (snd r)) (filter (\<lambda>r. fst r = d) rows)),
      day_commission = sum_list (map (\<lambda>r. snd (snd r)) (filter (\<lambda>r. fst r = d) rows)),
      occupied_flag = (if d \<in> fst ` set rows then 1 else 0)\<rparr>"

text \<open>
  A concrete run: three bookings around the turn of January 2024, two of them sharing
  the night of 2024-02-01, two free nights, and a cutoff (2024-02-06, exclusive) inside
  the third booking.
\<close>

definition example_globals :: module_globals where
  "example_globals =
     \<lparr>OUTPUT_DIR = ''report_outputs'', FILTER_START = days_from_civil 2021 1 1,
      FILTER_END_EXCL = days_from_civil 2024 2 6\<rparr>"

definition example_bookings :: "booking list" where
  "example_bookings =
     [\<lparr>prichod = days_from_civil 2024 1 30, odchod = days_from_civil 2024 2 2, pocet_noci = 3,
       cena = 300, provizia = 30\<rparr>,
      \<lparr>prichod = days_from_civil 2024 2 1, odchod = days_from_civil 2024 2 3, pocet_noci = 2,
       cena = 100, provizia = 0\<rparr>,
      \<lparr>prichod = days_from_civil 2024 2 5, odchod = days_from_civil 2024 2 7, pocet_noci = 2,
       cena = 80, provizia = 8\<rparr>]"

text \<open>The rows of the daily table that fall in one month, and the monthly table of the concrete run.\<close>

definition month_group :: "daily_row list \<Rightarrow> int \<Rightarrow> daily_row list" where
  "month_group df m = filter (\<lambda>r. cal_month r = m) df"

definition example_monthly :: "monthly_row list" where
  "example_monthly =
     [\<lparr>month = 648, available_nights = 2, occupied_nights = 2, revenue_gross = 200,
       commission = 20, revenue_net = 180, occupancy_pct = Finite 100,
       revpar_gross = Finite 100, revpar_net = Finite 90, year = 2024, month_num = 1\<rparr>,
      \<lparr>month = 649, available_nights = 5, occupied_nights = 3, revenue_gross = 240,
       commission = 14, revenue_net = 226, occupancy_pct = Finite 60,
       revpar_gross = Finite 48, revpar_net = Finite (226 / 5), year = 2024, month_num = 2\<rparr>]"

text \<open>
  The run of the cutoff scenario: one booking from 2024-01-30 to 2024-02-05, of any price
  and commission, and the cutoff 2024-02-01.
\<close>

definition clamp_globals :: module_globals where
  "clamp_globals =
     \<lparr>OUTPUT_DIR = ''report_outputs'', FILTER_START = days_from_civil 2021 1 1,
      FILTER_END_EXCL = days_from_civil 2024 2 1\<rparr>"

definition clamp_booking :: "rat \<Rightarrow> rat \<Rightarrow> booking" where
  "clamp_booking p c =
     \<lparr>prichod = days_from_civil 2024 1 30, odchod = days_from_civil 2024 2 5, pocet_noci = 6,
      cena = p, provizia = c\<rparr>"

text \<open>
  Two stores for the concrete run: one with the bookings only, one with another module
  state (same cutoff), the bookings at another address and an older frame.
\<close>

definition example_store :: store where
  "example_store =
     \<lparr>module_state = example_globals,
      objects = (\<lambda>a. if a = 0 then Some (Frame_bookings example_bookings) else None),
      fresh = 1\<rparr>"

definition other_store :: store where
  "other_store =
     \<lparr>module_state = example_globals\<lparr>OUTPUT_DIR := ''elsewhere'', FILTER_START := 0\<rparr>,
      objects = (\<lambda>a. if a = 3 then Some (Frame_bookings example_bookings)
                       else if a = 0 then Some (Frame_monthly []) else None),
      fresh = 5\<rparr>"

section \<open>Properties of the loops and of the group operations\<close>

lemma col_min_Min: "xs \<noteq> [] \<Longrightarrow> col_min xs = Min (set xs)"
  by (induction xs rule: col_min.induct) auto

lemma col_max_Max: "xs \<noteq> [] \<Longrightarrow> col_max xs = Max (set xs)"
  by (induction xs rule: col_max.induct) auto

lemma nights_loop_append:
  "nights_loop e rv cm ds rows = rows @ map (\<lambda>d. (d, rv, cm)) (filter (\<lambda>d. d \<le> e) ds)"
  by (induction ds arbitrary: rows) (simp_all add: normalize_def Let_def not_less)

lemma booking_step_ok:
  "pocet_noci r \<noteq> 0 \<Longrightarrow> booking_step e r rows = Inr (rows @ allocations e r)"
  by (simp add: booking_step_def allocations_def clamped_nights_def date_range_def nights_loop_append)

lemma booking_step_zero: "pocet_noci r = 0 \<Longrightarrow> booking_step e r rows = Inl ZeroDivisionError"
  by (simp add: booking_step_def)

lemma bookings_loop_ok:
  "\<forall>r \<in> set rs. pocet_noci r \<noteq> 0 \<Longrightarrow>
   bookings_loop e rs rows = Inr (rows @ concat (map (allocations e) rs))"
  by (induction rs arbitrary: rows) (simp_all add: booking_step_ok)

lemma bookings_loop_zero:
  "\<exists>r \<in> set rs. pocet_noci r = 0 \<Longrightarrow> bookings_loop e rs rows = Inl ZeroDivisionError"
proof (induction rs arbitrary: rows)
  case Nil
  then show ?case by simp
next
  case (Cons r rs)
  show ?case
  proof (cases "pocet_noci r = 0")
    case True
    then show ?thesis by (simp add: booking_step_zero)
  next
    case False
    with Cons.prems have "\<exists>r \<in> set rs. pocet_noci r = 0" by simp
    from Cons.IH [OF this] False show ?thesis by (simp add: booking_step_ok)
  qed
qed

lemma bookings_loop_cases:
  "bookings_loop e rs rows =
     (if \<forall>r \<in> set rs. pocet_noci r \<noteq> 0 then Inr (rows @ concat (map (allocations e) rs))
      else Inl ZeroDivisionError)"
  using bookings_loop_ok [of rs e rows] bookings_loop_zero [of rs e rows] by auto

lemma set_groupby_keys: "set (groupby_keys f xs) = f ` set xs"
  by (simp add: groupby_keys_def)

lemma distinct_groupby_keys: "distinct (groupby_keys f xs)"
  by (simp add: groupby_keys_def)

lemma sorted_groupby_keys: "sorted (groupby_keys f xs)"
  by (simp add: groupby_keys_def)

lemma map_fst_daily_agg: "map fst (daily_agg daily) = groupby_keys fst daily"
  by (simp add: daily_agg_def Let_def comp_def)

lemma filter_distinct_keys:
  "distinct (map fst agg) \<Longrightarrow>
   filter (\<lambda>a. fst a = d) agg = (case map_of agg d of None \<Rightarrow> [] | Some v \<Rightarrow> [(d, v)])"
proof (induction agg)
  case Nil
  then show ?case by simp
next
  case (Cons a agg)
  obtain k v where a: "a = (k, v)" by (cases a)
  show ?case
  proof (cases "k = d")
    case True
    with Cons.prems a have "d \<notin> fst ` set agg" by auto
    then have "filter (\<lambda>a. fst a = d) agg = []" by (auto simp: filter_empty_conv)
    with True a show ?thesis by simp
  next
    case False
    with Cons a show ?thesis by simp
  qed
qed

lemma merge_left_distinct:
  assumes "distinct (map fst agg)"
  shows "merge_left cal agg = map (\<lambda>(d, m). (d, m, map_of agg d)) cal"
proof -
  have one: "(case filter (\<lambda>a. fst a = d) agg of
           [] \<Rightarrow> [(d, m, None)]
         | ms \<Rightarrow> map (\<lambda>a. (d, m, Some (snd a))) ms) = [(d, m, map_of agg d)]" for d m
    by (simp add: filter_distinct_keys [OF assms] split: option.splits)
  show ?thesis
    unfolding merge_left_def
    by (induction cal) (auto simp: one)
qed

lemma map_of_tabulate:
  "map_of (map (\<lambda>k. (k, f k)) ks) d = (if d \<in> set ks then Some (f d) else None)"
  by (induction ks) simp_all

lemma map_of_daily_agg:
  "map_of (daily_agg daily) d =
     (if d \<in> fst ` set daily
      then Some (sum_list (map (\<lambda>r. fst (snd r)) (filter (\<lambda>r. fst r = d) daily)),
                 sum_list (map (\<lambda>r. snd (snd r)) (filter (\<lambda>r. fst r = d) daily)),
                 1)
      else None)"
proof -
  have nonempty: "0 < length (filter (\<lambda>r. fst r = d) daily)" if "d \<in> fst ` set daily"
    using that by (auto simp: filter_empty_conv)
  show ?thesis
    unfolding daily_agg_def Let_def map_of_tabulate set_groupby_keys
    using nonempty by simp
qed

lemma fillna0_daily_agg:
  "fillna0 (d, month_of d, map_of (daily_agg rows) d) = day_record rows d"
proof (cases "d \<in> fst ` set rows")
  case True
  then show ?thesis by (simp add: map_of_daily_agg fillna0_def day_record_def)
next
  case False
  then have "filter (\<lambda>r. fst r = d) rows = []" by (auto simp: filter_empty_conv)
  with False show ?thesis by (simp add: map_of_daily_agg fillna0_def day_record_def)
qed

lemma daily_table_of_rows:
  "map fillna0 (merge_left (map (\<lambda>d. (d, month_of d)) ds) (daily_agg rows)) =
   map (day_record rows) ds"
proof -
  have "distinct (map fst (daily_agg rows))"
    by (simp add: map_fst_daily_agg distinct_groupby_keys)
  then show ?thesis
    by (simp add: merge_left_distinct fillna0_daily_agg comp_def)
qed

lemma daily_full_char:
  assumes "df_b \<noteq> []" and "\<forall>r \<in> set df_b. pocet_noci r \<noteq> 0"
  shows "daily_full g df_b =
         Inr (map (day_record (expanded g df_b)) [start_date df_b..end_date g df_b])"
  using assms
  by (simp add: daily_full_def bookings_loop_ok calendar_def date_range_def
      daily_table_of_rows expanded_def)

lemma daily_full_error:
  "daily_full g df_b =
     (if df_b = [] then Inl SystemExit
      else if \<forall>r \<in> set df_b. pocet_noci r \<noteq> 0
      then Inr (map (day_record (expanded g df_b)) [start_date df_b..end_date g df_b])
      else Inl ZeroDivisionError)"
proof (cases "df_b = []")
  case True
  then show ?thesis by (simp add: daily_full_def)
next
  case False
  show ?thesis
  proof (cases "\<forall>r \<in> set df_b. pocet_noci r \<noteq> 0")
    case True
    with False show ?thesis by (simp add: daily_full_char)
  next
    case False
    then have "bookings_loop (end_date g df_b) df_b [] = Inl ZeroDivisionError"
      by (intro bookings_loop_zero) simp
    with False \<open>df_b \<noteq> []\<close> show ?thesis by (simp add: daily_full_def)
  qed
qed

lemma set_clamped_nights:
  "set (clamped_nights e r) = {d. prichod r \<le> d \<and> d < odchod r \<and> d \<le> e}"
  by (auto simp: clamped_nights_def)

lemma distinct_clamped_nights: "distinct (clamped_nights e r)"
  by (simp add: clamped_nights_def)

lemma map_fst_allocations: "map fst (allocations e r) = clamped_nights e r"
  by (simp add: allocations_def comp_def)

lemma dates_allocations:
  "fst ` set (allocations e r) = {d. prichod r \<le> d \<and> d < odchod r \<and> d \<le> e}"
  using set_clamped_nights [of e r] map_fst_allocations [of e r]
  by (metis set_map)

lemma dates_expanded:
  "d \<in> fst ` set (expanded g df_b) \<longleftrightarrow>
   (\<exists>b \<in> set df_b. prichod b \<le> d \<and> d < odchod b \<and> d \<le> end_date g df_b)"
proof -
  have "fst ` set (expanded g df_b) = (\<Union>b \<in> set df_b. fst ` set (allocations (end_date g df_b) b))"
    by (auto simp: expanded_def)
  then show ?thesis by (simp add: dates_allocations)
qed

lemma start_date_le: "b \<in> set df_b \<Longrightarrow> start_date df_b \<le> prichod b"
proof -
  assume b: "b \<in> set df_b"
  then have ne: "map prichod df_b \<noteq> []" by auto
  have "Min (set (map prichod df_b)) \<le> prichod b"
    using b by (intro Min_le) auto
  with ne show ?thesis by (simp add: start_date_def normalize_def col_min_Min)
qed

lemma dates_expanded_in_window:
  "fst ` set (expanded g df_b) \<subseteq> set [start_date df_b..end_date g df_b]"
proof
  fix d assume "d \<in> fst ` set (expanded g df_b)"
  then obtain b where "b \<in> set df_b" "prichod b \<le> d" "d \<le> end_date g df_b"
    unfolding dates_expanded by blast
  with start_date_le [of b df_b] show "d \<in> set [start_date df_b..end_date g df_b]" by simp
qed

lemma sum_list_delta:
  fixes c :: rat
  assumes "distinct ds" and "k \<in> set ds"
  shows "(\<Sum>d\<leftarrow>ds. if k = d then c else 0) = c"
proof -
  have "(\<Sum>d\<leftarrow>ds. if k = d then c else 0) = (\<Sum>d\<in>set ds. if k = d then c else 0)"
    using assms(1) by (rule sum_list_distinct_conv_sum_set)
  also have "\<dots> = c" using assms(2) by simp
  finally show ?thesis .
qed

lemma sum_list_grouped:
  fixes f :: "int \<times> rat \<times> rat \<Rightarrow> rat"
  assumes "distinct ds" and "fst ` set rows \<subseteq> set ds"
  shows "(\<Sum>d\<leftarrow>ds. sum_list (map f (filter (\<lambda>r. fst r = d) rows))) = sum_list (map f rows)"
  using assms(2)
proof (induction rows)
  case Nil
  then show ?case by simp
next
  case (Cons r rows)
  have "(\<Sum>d\<leftarrow>ds. sum_list (map f (filter (\<lambda>r. fst r = d) (r # rows)))) =
        (\<Sum>d\<leftarrow>ds. (if fst r = d then f r else 0) + sum_list (map f (filter (\<lambda>r. fst r = d) rows)))"
    by (intro arg_cong [where f = sum_list] map_cong) auto
  also have "\<dots> = (\<Sum>d\<leftarrow>ds. if fst r = d then f r else 0) +
        (\<Sum>d\<leftarrow>ds. sum_list (map f (filter (\<lambda>r. fst r = d) rows)))"
    by (simp add: sum_list_addf)
  also have "\<dots> = f r + sum_list (map f rows)"
    using Cons assms(1) by (simp add: sum_list_delta)
  finally show ?case by simp
qed

section \<open>The concrete run, evaluated\<close>

lemma example_dates:
  "days_from_civil 2021 1 1 = 18628" "days_from_civil 2024 1 30 = 19752"
  "days_from_civil 2024 2 1 = 19754" "days_from_civil 2024 2 2 = 19755"
  "days_from_civil 2024 2 3 = 19756" "days_from_civil 2024 2 5 = 19758"
  "days_from_civil 2024 2 6 = 19759" "days_from_civil 2024 2 7 = 19760"
  by code_simp+

lemma example_window:
  "start_date example_bookings = 19752" "end_date example_globals example_bookings = 19758"
  by (simp_all add: start_date_def end_date_def end_limit_def normalize_def
      example_bookings_def example_globals_def example_dates)

lemma example_months:
  "month_of 19752 = 648" "month_of 19753 = 648" "month_of 19754 = 649" "month_of 19755 = 649"
  "month_of 19756 = 649" "month_of 19757 = 649" "month_of 19758 = 649"
  by code_simp+

lemma example_expanded:
  "expanded example_globals example_bookings =
     [(19752, 100, 10), (19753, 100, 10), (19754, 100, 10),
      (19754, 50, 0), (19755, 50, 0), (19758, 40, 4)]"
  unfolding expanded_def example_window
  by (simp add: example_bookings_def example_dates allocations_def clamped_nights_def)

lemma example_daily_full:
  "daily_full example_globals example_bookings =
     Inr [\<lparr>date = 19752, cal_month = 648, day_revenue_gross = 100, day_commission = 10, occupied_flag = 1\<rparr>,
          \<lparr>date = 19753, cal_month = 648, day_revenue_gross = 100, day_commission = 10, occupied_flag = 1\<rparr>,
          \<lparr>date = 19754, cal_month = 649, day_revenue_gross = 150, day_commission = 10, occupied_flag = 1\<rparr>,
          \<lparr>date = 19755, cal_month = 649, day_revenue_gross = 50, day_commission = 0, occupied_flag = 1\<rparr>,
          \<lparr>date = 19756, cal_month = 649, day_revenue_gross = 0, day_commission = 0, occupied_flag = 0\<rparr>,
          \<lparr>date = 19757, cal_month = 649, day_revenue_gross = 0, day_commission = 0, occupied_flag = 0\<rparr>,
          \<lparr>date = 19758, cal_month = 649, day_revenue_gross = 40, day_commission = 4, occupied_flag = 1\<rparr>]"
proof -
  have ok: "example_bookings \<noteq> []" "\<forall>r \<in> set example_bookings. pocet_noci r \<noteq> 0"
    by (simp_all add: example_bookings_def)
  show ?thesis
    unfolding daily_full_char [OF ok] example_window example_expanded
    by (simp add: day_record_def example_months)
qed

section \<open>Properties of the monthly rollup\<close>

lemma map_month_monthly:
  "map month (map add_kpi_columns (monthly_agg df)) = groupby_keys cal_month df"
  by (simp add: monthly_agg_def add_kpi_columns_def Let_def comp_def)

lemma sort_monthly:
  "sort_key month (map add_kpi_columns (monthly_agg df)) = map add_kpi_columns (monthly_agg df)"
  by (rule sort_key_id_if_sorted) (simp only: map_month_monthly sorted_groupby_keys)

lemma compute_char:
  "compute_monthly_occupancy_revpar g df_b =
     (case daily_full g df_b of
        Inl err \<Rightarrow> Inl err
      | Inr df \<Rightarrow> Inr (map add_kpi_columns (monthly_agg df)))"
  by (simp add: compute_monthly_occupancy_revpar_def sort_monthly split: sum.splits)

lemma compute_Inr:
  assumes "compute_monthly_occupancy_revpar g df_b = Inr monthly"
  obtains df where "daily_full g df_b = Inr df"
    and "monthly = map add_kpi_columns (monthly_agg df)"
  using assms unfolding compute_char by (cases "daily_full g df_b") auto

lemma daily_full_Inr:
  assumes "daily_full g df_b = Inr df"
  shows "df_b \<noteq> []" and "\<forall>r \<in> set df_b. pocet_noci r \<noteq> 0"
    and "df = map (day_record (expanded g df_b)) [start_date df_b..end_date g df_b]"
  using assms unfolding daily_full_error by (auto split: if_splits)

lemma monthly_row_fields:
  assumes "k \<in> set (map add_kpi_columns (monthly_agg df))"
  shows "month k \<in> cal_month ` set df"
    and "available_nights k = length (month_group df (month k))"
    and "occupied_nights k = sum_list (map occupied_flag (month_group df (month k)))"
    and "revenue_gross k = sum_list (map day_revenue_gross (month_group df (month k)))"
    and "commission k = sum_list (map day_commission (month_group df (month k)))"
    and "revenue_net k = revenue_gross k - commission k"
    and "occupancy_pct k =
           series_div (100 * of_nat (occupied_nights k)) (of_nat (available_nights k))"
    and "revpar_gross k = series_div (revenue_gross k) (of_nat (available_nights k))"
    and "revpar_net k = series_div (revenue_net k) (of_nat (available_nights k))"
    and "year k = 1970 + month k div 12" and "month_num k = month k mod 12 + 1"
proof -
  from assms obtain m where m: "m \<in> cal_month ` set df"
    and k: "k = add_kpi_columns
                 \<lparr>agg_month = m,
                  agg_available_nights = length (month_group df m),
                  agg_occupied_nights = sum_list (map occupied_flag (month_group df m)),
                  agg_revenue_gross = sum_list (map day_revenue_gross (month_group df m)),
                  agg_commission = sum_list (map day_commission (month_group df m))\<rparr>"
    by (auto simp: monthly_agg_def Let_def set_groupby_keys month_group_def)
  have mk: "month k = m" by (simp add: k add_kpi_columns_def Let_def)
  show "month k \<in> cal_month ` set df" using m mk by simp
  show "available_nights k = length (month_group df (month k))"
    unfolding mk by (simp add: k add_kpi_columns_def Let_def)
  show "occupied_nights k = sum_list (map occupied_flag (month_group df (month k)))"
    unfolding mk by (simp add: k add_kpi_columns_def Let_def)
  show "revenue_gross k = sum_list (map day_revenue_gross (month_group df (month k)))"
    unfolding mk by (simp add: k add_kpi_columns_def Let_def)
  show "commission k = sum_list (map day_commission (month_group df (month k)))"
    unfolding mk by (simp add: k add_kpi_columns_def Let_def)
  show "revenue_net k = revenue_gross k - commission k"
    by (simp add: k add_kpi_columns_def Let_def)
  show "occupancy_pct k =
          series_div (100 * of_nat (occupied_nights k)) (of_nat (available_nights k))"
    by (simp add: k add_kpi_columns_def Let_def)
  show "revpar_gross k = series_div (revenue_gross k) (of_nat (available_nights k))"
    by (simp add: k add_kpi_columns_def Let_def)
  show "revpar_net k = series_div (revenue_net k) (of_nat (available_nights k))"
    by (simp add: k add_kpi_columns_def Let_def)
  show "year k = 1970 + month k div 12" by (simp add: k add_kpi_columns_def Let_def)
  show "month_num k = month k mod 12 + 1" by (simp add: k add_kpi_columns_def Let_def)
qed

lemma month_group_nonempty:
  "m \<in> cal_month ` set df \<Longrightarrow> 0 < length (month_group df m)"
  by (auto simp: month_group_def filter_empty_conv)

lemma sum_list_flags:
  fixes f :: "'a \<Rightarrow> nat"
  assumes "\<forall>r \<in> set xs. f r \<le> 1"
  shows "sum_list (map f xs) = length (filter (\<lambda>r. f r = 1) xs)"
  using assms
proof (induction xs)
  case Nil
  then show ?case by simp
next
  case (Cons x xs)
  then have "f x = 0 \<or> f x = 1" by (simp add: le_Suc_eq)
  with Cons show ?case by auto
qed

lemma sum_list_flags_le:
  fixes f :: "'a \<Rightarrow> nat"
  assumes "\<forall>r \<in> set xs. f r \<le> 1"
  shows "sum_list (map f xs) \<le> length xs"
  unfolding sum_list_flags [OF assms] by (rule length_filter_le)

lemma day_record_simps:
  "date (day_record rows d) = d" "cal_month (day_record rows d) = month_of d"
  "occupied_flag (day_record rows d) \<le> 1"
  "occupied_flag (day_record rows d) = 1 \<longleftrightarrow> d \<in> fst ` set rows"
  by (simp_all add: day_record_def)

lemma month_group_day_records:
  "month_group (map (day_record rows) ds) m =
   map (day_record rows) (filter (\<lambda>d. month_of d = m) ds)"
  by (simp add: month_group_def filter_map comp_def day_record_simps)

lemma example_compute:
  "compute_monthly_occupancy_revpar example_globals example_bookings = Inr example_monthly"
  unfolding compute_char example_daily_full
  by (simp add: monthly_agg_def groupby_keys_def add_kpi_columns_def series_div_def
      example_monthly_def Let_def)

section \<open>The cutoff scenario, evaluated\<close>

lemma clamp_dates:
  "days_from_civil 2024 1 30 = 19752" "days_from_civil 2024 1 31 = 19753"
  "days_from_civil 2024 2 1 = 19754" "days_from_civil 2024 2 5 = 19758"
  by code_simp+

lemma clamp_window:
  "start_date [clamp_booking p c] = 19752" "end_date clamp_globals [clamp_booking p c] = 19753"
  by (simp_all add: start_date_def end_date_def end_limit_def normalize_def
      clamp_booking_def clamp_globals_def clamp_dates)

lemma clamp_expanded:
  "expanded clamp_globals [clamp_booking p c] = [(19752, p / 6, c / 6), (19753, p / 6, c / 6)]"
  unfolding expanded_def clamp_window
  by (simp add: clamp_booking_def clamp_dates allocations_def clamp_dates clamped_nights_def)

lemma clamp_step:
  "booking_step (end_date clamp_globals [clamp_booking p c]) (clamp_booking p c) [] =
     Inr [(days_from_civil 2024 1 30, p / 6, c / 6), (days_from_civil 2024 1 31, p / 6, c / 6)]"
proof -
  have "pocet_noci (clamp_booking p c) \<noteq> 0" by (simp add: clamp_booking_def)
  then show ?thesis
    using clamp_expanded [of p c]
    by (simp add: booking_step_ok expanded_def clamp_dates)
qed

lemma clamp_daily_full:
  "daily_full clamp_globals [clamp_booking p c] =
     Inr [\<lparr>date = 19752, cal_month = 648, day_revenue_gross = p / 6, day_commission = c / 6,
           occupied_flag = 1\<rparr>,
          \<lparr>date = 19753, cal_month = 648, day_revenue_gross = p / 6, day_commission = c / 6,
           occupied_flag = 1\<rparr>]"
proof -
  have ok: "[clamp_booking p c] \<noteq> []" "\<forall>r \<in> set [clamp_booking p c]. pocet_noci r \<noteq> 0"
    by (simp_all add: clamp_booking_def)
  show ?thesis
    unfolding daily_full_char [OF ok] clamp_window clamp_expanded
    by (simp add: day_record_def example_months)
qed

lemma clamp_compute:
  "\<exists>monthly. compute_monthly_occupancy_revpar clamp_globals [clamp_booking p c] = Inr monthly \<and>
     map month monthly = [648]"
  unfolding compute_char clamp_daily_full
  by (simp add: monthly_agg_def groupby_keys_def add_kpi_columns_def Let_def)

section \<open>Totals of the daily table and rows of the monthly table\<close>

lemma day_record_free:
  assumes "d \<notin> fst ` set rows"
  shows "day_revenue_gross (day_record rows d) = 0" and "day_commission (day_record rows d) = 0"
    and "occupied_flag (day_record rows d) = 0"
proof -
  from assms have "filter (\<lambda>r. fst r = d) rows = []" by (auto simp: filter_empty_conv)
  then show "day_revenue_gross (day_record rows d) = 0"
    and "day_commission (day_record rows d) = 0"
    by (simp_all add: day_record_def)
  from assms show "occupied_flag (day_record rows d) = 0" by (simp add: day_record_def)
qed

lemma sum_allocations:
  "sum_list (map (\<lambda>r. fst (snd r)) (allocations e b)) =
     cena b / of_int (pocet_noci b) * of_nat (length (clamped_nights e b))"
  "sum_list (map (\<lambda>r. snd (snd r)) (allocations e b)) =
     provizia b / of_int (pocet_noci b) * of_nat (length (clamped_nights e b))"
  by (simp_all add: allocations_def comp_def sum_list_triv)

lemma sum_list_concat_rat:
  fixes xss :: "rat list list"
  shows "sum_list (concat xss) = sum_list (map sum_list xss)"
  by (induction xss) simp_all

lemma sum_expanded:
  "sum_list (map (\<lambda>r. fst (snd r)) (expanded g df_b)) =
     (\<Sum>b\<leftarrow>df_b. cena b / of_int (pocet_noci b) *
        of_nat (length (clamped_nights (end_date g df_b) b)))"
  "sum_list (map (\<lambda>r. snd (snd r)) (expanded g df_b)) =
     (\<Sum>b\<leftarrow>df_b. provizia b / of_int (pocet_noci b) *
        of_nat (length (clamped_nights (end_date g df_b) b)))"
  by (simp_all add: expanded_def map_concat sum_list_concat_rat comp_def sum_allocations)

lemma sum_daily_table:
  "sum_list (map day_revenue_gross
       (map (day_record (expanded g df_b)) [start_date df_b..end_date g df_b])) =
     sum_list (map (\<lambda>r. fst (snd r)) (expanded g df_b))"
  "sum_list (map day_commission
       (map (day_record (expanded g df_b)) [start_date df_b..end_date g df_b])) =
     sum_list (map (\<lambda>r. snd (snd r)) (expanded g df_b))"
proof -
  have d: "distinct [start_date df_b..end_date g df_b]" by simp
  show "sum_list (map day_revenue_gross
       (map (day_record (expanded g df_b)) [start_date df_b..end_date g df_b])) =
     sum_list (map (\<lambda>r. fst (snd r)) (expanded g df_b))"
    using sum_list_grouped [OF d dates_expanded_in_window, where f = "\<lambda>r. fst (snd r)"]
    by (simp add: comp_def day_record_def)
  show "sum_list (map day_commission
       (map (day_record (expanded g df_b)) [start_date df_b..end_date g df_b])) =
     sum_list (map (\<lambda>r. snd (snd r)) (expanded g df_b))"
    using sum_list_grouped [OF d dates_expanded_in_window, where f = "\<lambda>r. snd (snd r)"]
    by (simp add: comp_def day_record_def)
qed

lemma end_date_ge:
  assumes "b \<in> set df_b" and "odchod b \<le> FILTER_END_EXCL g"
  shows "odchod b - 1 \<le> end_date g df_b"
proof -
  from assms(1) have ne: "map odchod df_b \<noteq> []" by auto
  have "odchod b \<le> Max (set (map odchod df_b))"
    using assms(1) by (intro Max_ge) auto
  with assms(2) col_max_Max [OF ne] show ?thesis
    by (simp add: end_date_def end_limit_def normalize_def)
qed

lemma unclamped_share:
  assumes "b \<in> set df_b" and "odchod b \<le> FILTER_END_EXCL g"
    and "prichod b < odchod b" and "pocet_noci b = odchod b - prichod b"
  shows "x / of_int (pocet_noci b) * of_nat (length (clamped_nights (end_date g df_b) b)) = (x::rat)"
proof -
  have "filter (\<lambda>d. d \<le> end_date g df_b) [prichod b..odchod b - 1] = [prichod b..odchod b - 1]"
    using end_date_ge [OF assms(1,2)] by (auto simp: filter_id_conv)
  then have "length (clamped_nights (end_date g df_b) b) = nat (odchod b - prichod b)"
    by (simp add: clamped_nights_def)
  moreover have "rat_of_nat (nat (odchod b - prichod b)) = of_int (odchod b - prichod b)"
    using assms(3) by simp
  ultimately show ?thesis using assms(3,4) by simp
qed

lemma series_div_pos: "b \<noteq> 0 \<Longrightarrow> series_div a b = Finite (a / b)"
  by (simp add: series_div_def)

lemma monthly_rows:
  assumes "compute_monthly_occupancy_revpar g df_b = Inr monthly" and "k \<in> set monthly"
  obtains df where "daily_full g df_b = Inr df"
    and "df = map (day_record (expanded g df_b)) [start_date df_b..end_date g df_b]"
    and "month k \<in> cal_month ` set df"
    and "available_nights k = length (month_group df (month k))"
    and "0 < available_nights k"
    and "occupied_nights k = sum_list (map occupied_flag (month_group df (month k)))"
    and "revenue_gross k = sum_list (map day_revenue_gross (month_group df (month k)))"
    and "commission k = sum_list (map day_commission (month_group df (month k)))"
    and "revenue_net k = revenue_gross k - commission k"
    and "occupancy_pct k =
           Finite (100 * of_nat (occupied_nights k) / of_nat (available_nights k))"
    and "revpar_gross k = Finite (revenue_gross k / of_nat (available_nights k))"
    and "revpar_net k = Finite (revenue_net k / of_nat (available_nights k))"
proof -
  from assms(1) obtain df where df: "daily_full g df_b = Inr df"
    and monthly: "monthly = map add_kpi_columns (monthly_agg df)"
    by (rule compute_Inr)
  from assms(2) have k: "k \<in> set (map add_kpi_columns (monthly_agg df))"
    unfolding monthly .
  note f = monthly_row_fields [OF k]
  have pos: "0 < available_nights k"
    unfolding f(2) using f(1) by (rule month_group_nonempty)
  then have nz: "(of_nat (available_nights k) :: rat) \<noteq> 0" by simp
  show thesis
    using df daily_full_Inr(3) [OF df] f(1,2) pos f(3,4,5,6)
      f(7) [unfolded series_div_pos [OF nz]] f(8) [unfolded series_div_pos [OF nz]]
      f(9) [unfolded series_div_pos [OF nz]]
    by (rule that)
qed

lemma flags_le_1:
  "\<forall>r \<in> set (month_group (map (day_record rows) ds) m). occupied_flag r \<le> 1"
  by (auto simp: month_group_def day_record_def)

text \<open>
  With a window that ends before it starts the calendar has no day, and the lists of
  rows that stand for the frames are all empty. (What pandas does when it merges two
  frames without rows depends on the dtypes of their key columns, which are not part
  of this model.)
\<close>

lemma empty_window_rows:
  assumes "df_b \<noteq> []" and "\<forall>r \<in> set df_b. pocet_noci r \<noteq> 0"
    and "end_date g df_b < start_date df_b"
  shows "daily_full g df_b = Inr []"
  using assms by (simp add: daily_full_char)

section \<open>The function on a store\<close>

lemma assign_same: "objects s a = Some v \<Longrightarrow> assign a v s = s"
  by (simp add: assign_def map_upd_triv)

lemma assign_assign: "assign a v (assign a w s) = assign a v s"
  by (simp add: assign_def)

lemma objects_assign: "objects (assign a v s) b = (if b = a then Some v else objects s b)"
  by (simp add: assign_def)

lemma nights_loop_st_char:
  "objects s rows = Some (List_rows xs) \<Longrightarrow>
   nights_loop_st rows e rv cm ds s =
     Some (assign rows (List_rows (nights_loop e rv cm ds xs)) s)"
proof (induction ds arbitrary: s xs)
  case Nil
  then show ?case by (simp add: assign_same)
next
  case (Cons d ds)
  show ?case
  proof (cases "e < normalize d")
    case True
    with Cons show ?thesis by simp
  next
    case False
    let ?s' = "assign rows (List_rows (xs @ [(normalize d, rv, cm)])) s"
    have "objects ?s' rows = Some (List_rows (xs @ [(normalize d, rv, cm)]))"
      by (simp add: objects_assign)
    from Cons.IH [OF this] False Cons.prems show ?thesis
      by (simp add: assign_assign Let_def)
  qed
qed

lemma bookings_loop_st_char:
  "objects s rows = Some (List_rows xs) \<Longrightarrow>
   \<exists>r ys. bookings_loop_st rows e bs s = Some (r, assign rows (List_rows ys) s) \<and>
     (case bookings_loop e bs xs of
        Inl err \<Rightarrow> r = Inl err
      | Inr zs \<Rightarrow> r = Inr () \<and> ys = zs)"
proof (induction bs arbitrary: s xs)
  case Nil
  then show ?case by (auto simp: assign_same)
next
  case (Cons b bs)
  show ?case
  proof (cases "pocet_noci b = 0")
    case True
    with Cons.prems show ?thesis
      by (auto simp: booking_step_st_def booking_step_def assign_same intro!: exI [of _ xs])
  next
    case False
    let ?ys = "nights_loop e (cena b / of_int (pocet_noci b)) (provizia b / of_int (pocet_noci b))
                 (date_range (prichod b) (odchod b - 1)) xs"
    let ?s' = "assign rows (List_rows ?ys) s"
    have step: "booking_step_st rows e b s = Some (Inr (), ?s')"
      using False nights_loop_st_char [OF Cons.prems]
      by (simp add: booking_step_st_def)
    have pure: "booking_step e b xs = Inr ?ys"
      using False by (simp add: booking_step_def)
    have "objects ?s' rows = Some (List_rows ?ys)" by (simp add: objects_assign)
    from Cons.IH [OF this, of ] obtain r ys where
      "bookings_loop_st rows e bs ?s' = Some (r, assign rows (List_rows ys) ?s')"
      "case bookings_loop e bs ?ys of Inl err \<Rightarrow> r = Inl err | Inr zs \<Rightarrow> r = Inr () \<and> ys = zs"
      by blast
    with step pure show ?thesis by (auto simp: assign_assign)
  qed
qed

lemma daily_agg_steps: "drop_occ_cnt (with_occupied_flag (daily_groupby xs)) = daily_agg xs"
  by (simp add: drop_occ_cnt_def with_occupied_flag_def daily_groupby_def daily_agg_def
      Let_def comp_def)

lemma build_tables_char:
  assumes "objects s cal = Some (Frame_calendar c)" and "objects s rows = Some (List_rows ys)"
    and "cal < fresh s" and "rows < fresh s"
  shows "\<exists>out s'. build_tables cal rows s = Some (out, s') \<and>
           objects s' out =
             Some (Frame_monthly (sort_key month (map add_kpi_columns
               (monthly_agg (map fillna0 (merge_left c (daily_agg ys))))))) \<and>
           module_state s' = module_state s \<and> fresh s \<le> fresh s' \<and>
           (\<forall>a < fresh s. objects s' a = objects s a)"
  using assms
  by (simp add: build_tables_def new_daily_def groupby_date_def set_occupied_flag_def
      drop_column_def merge_frames_def fillna_columns_def groupby_month_def
      set_kpi_columns_def sort_values_def alloc_def assign_def daily_agg_steps)

lemma run_compute_char:
  assumes "objects s df_b = Some (Frame_bookings bs)" and "df_b < fresh s"
  shows "\<exists>r s'. run_compute df_b s = Some (r, s') \<and>
           returned s' r = Some (compute_monthly_occupancy_revpar (module_state s) bs) \<and>
           module_state s' = module_state s \<and> fresh s \<le> fresh s' \<and>
           (\<forall>a < fresh s. objects s' a = objects s a)"
proof (cases "bs = []")
  case True
  with assms show ?thesis
    by (simp add: run_compute_def returned_def compute_char daily_full_def)
next
  case False
  let ?g = "module_state s"
  let ?cal = "fresh s"
  let ?rows = "Suc (fresh s)"
  let ?s1 = "snd (alloc (Frame_dates (date_range (start_date bs) (end_date ?g bs))) s)"
  let ?s2 = "assign ?cal (Frame_calendar (calendar ?g bs)) ?s1"
  let ?s3 = "snd (alloc (List_rows []) ?s2)"
  have s2: "set_calendar_month ?cal ?s1 = Some ?s2"
    by (simp add: set_calendar_month_def alloc_def calendar_def)
  have rows3: "objects ?s3 ?rows = Some (List_rows [])"
    by (simp add: alloc_def assign_def)
  from bookings_loop_st_char [OF rows3, of "end_date ?g bs" bs] obtain r ys where
    loop: "bookings_loop_st ?rows (end_date ?g bs) bs ?s3 = Some (r, assign ?rows (List_rows ys) ?s3)"
    and pure: "case bookings_loop (end_date ?g bs) bs [] of
                 Inl err \<Rightarrow> r = Inl err | Inr zs \<Rightarrow> r = Inr () \<and> ys = zs"
    by blast
  let ?s4 = "assign ?rows (List_rows ys) ?s3"
  have run: "run_compute df_b s =
      (case r of
         Inl err \<Rightarrow> Some (Inl err, ?s4)
       | Inr _ \<Rightarrow> map_option (\<lambda>(out, s5). (Inr out, s5)) (build_tables ?cal ?rows ?s4))"
    using assms(1) False s2 loop
    by (simp add: run_compute_def alloc_def assign_def Let_def split: sum.splits)
  have frame4: "module_state ?s4 = ?g" "fresh s \<le> fresh ?s4"
    "\<forall>a < fresh s. objects ?s4 a = objects s a"
    by (simp_all add: alloc_def assign_def)
  show ?thesis
  proof (cases "bookings_loop (end_date ?g bs) bs []")
    case (Inl err)
    with pure have r: "r = Inl err" by simp
    have "compute_monthly_occupancy_revpar ?g bs = Inl err"
      using False Inl by (simp add: compute_char daily_full_def)
    with run r frame4 show ?thesis by (simp add: returned_def)
  next
    case (Inr zs)
    with pure have r: "r = Inr ()" and ys: "ys = zs" by simp_all
    have pre: "objects ?s4 ?cal = Some (Frame_calendar (calendar ?g bs))"
      "objects ?s4 ?rows = Some (List_rows ys)" "?cal < fresh ?s4" "?rows < fresh ?s4"
      by (simp_all add: alloc_def assign_def)
    from build_tables_char [OF pre] obtain out s' where
      tables: "build_tables ?cal ?rows ?s4 = Some (out, s')"
      and out: "objects s' out =
        Some (Frame_monthly (sort_key month (map add_kpi_columns
          (monthly_agg (map fillna0 (merge_left (calendar ?g bs) (daily_agg ys)))))))"
      and frame: "module_state s' = module_state ?s4" "fresh ?s4 \<le> fresh s'"
        "\<forall>a < fresh ?s4. objects s' a = objects ?s4 a"
      by blast
    have "compute_monthly_occupancy_revpar ?g bs =
        Inr (sort_key month (map add_kpi_columns
          (monthly_agg (map fillna0 (merge_left (calendar ?g bs) (daily_agg ys))))))"
      using False Inr ys
      by (simp add: compute_monthly_occupancy_revpar_def daily_full_def)
    moreover have "\<forall>a < fresh s. objects s' a = objects s a"
      using frame(3) frame4(2,3) by auto
    ultimately show ?thesis
      using run r tables out frame(1,2) frame4(1,2) by (simp add: returned_def)
  qed
qed

lemma compute_cutoff_only:
  assumes "FILTER_END_EXCL g = FILTER_END_EXCL g'"
  shows "compute_monthly_occupancy_revpar g df_b = compute_monthly_occupancy_revpar g' df_b"
proof -
  from assms have e: "end_date g df_b = end_date g' df_b"
    by (simp add: end_date_def end_limit_def)
  then have c: "calendar g df_b = calendar g' df_b"
    by (simp add: calendar_def)
  have "daily_full g df_b = daily_full g' df_b"
    unfolding daily_full_def e c ..
  then show ?thesis by (simp add: compute_monthly_occupancy_revpar_def)
qed

section \<open>The claims\<close>

text \<open>
  C1: when the daily table is produced, its gross revenues add up to the sum, over the
  bookings, of price / nights for every night of the booking that is not after the end
  of the window, and its commissions to the same sum of commission / nights. Where
  every booking has as many nights as there are days from arrival to departure and
  none departs after the cutoff, the two totals are the sum of the prices and the sum
  of the commissions. The arithmetic is exact: no rounding takes place in it.
\<close>

theorem revenue_conservation:
  assumes "daily_full g df_b = Inr df"
  shows "sum_list (map day_revenue_gross df) =
           (\<Sum>b\<leftarrow>df_b. cena b / of_int (pocet_noci b) *
              of_nat (length (filter (\<lambda>d. d \<le> end_date g df_b) [prichod b..odchod b - 1]))) \<and>
         sum_list (map day_commission df) =
           (\<Sum>b\<leftarrow>df_b. provizia b / of_int (pocet_noci b) *
              of_nat (length (filter (\<lambda>d. d \<le> end_date g df_b) [prichod b..odchod b - 1]))) \<and>
         ((\<forall>b \<in> set df_b. prichod b < odchod b \<and> pocet_noci b = odchod b - prichod b \<and>
                            odchod b \<le> FILTER_END_EXCL g) \<longrightarrow>
            sum_list (map day_revenue_gross df) = sum_list (map cena df_b) \<and>
            sum_list (map day_commission df) = sum_list (map provizia df_b))"
proof -
  note df = daily_full_Inr(3) [OF assms]
  have gross: "sum_list (map day_revenue_gross df) =
      (\<Sum>b\<leftarrow>df_b. cena b / of_int (pocet_noci b) *
         of_nat (length (clamped_nights (end_date g df_b) b)))"
    unfolding df sum_daily_table sum_expanded ..
  have comm: "sum_list (map day_commission df) =
      (\<Sum>b\<leftarrow>df_b. provizia b / of_int (pocet_noci b) *
         of_nat (length (clamped_nights (end_date g df_b) b)))"
    unfolding df sum_daily_table sum_expanded ..
  have whole: "sum_list (map day_revenue_gross df) = sum_list (map cena df_b) \<and>
      sum_list (map day_commission df) = sum_list (map provizia df_b)"
    if "\<forall>b \<in> set df_b. prichod b < odchod b \<and> pocet_noci b = odchod b - prichod b \<and>
                          odchod b \<le> FILTER_END_EXCL g"
  proof -
    have e1: "map (\<lambda>b. cena b / of_int (pocet_noci b) *
              of_nat (length (clamped_nights (end_date g df_b) b))) df_b = map cena df_b"
      using that by (intro map_cong refl unclamped_share) auto
    have e2: "map (\<lambda>b. provizia b / of_int (pocet_noci b) *
              of_nat (length (clamped_nights (end_date g df_b) b))) df_b = map provizia df_b"
      using that by (intro map_cong refl unclamped_share) auto
    show ?thesis unfolding gross comm e1 e2 by (rule conjI) (rule refl)+
  qed
  from gross comm whole show ?thesis unfolding clamped_nights_def by blast
qed

theorem revenue_conservation_witness:
  "daily_full clamp_globals [clamp_booking 600 60] =
     Inr [\<lparr>date = 19752, cal_month = 648, day_revenue_gross = 100, day_commission = 10,
           occupied_flag = 1\<rparr>,
          \<lparr>date = 19753, cal_month = 648, day_revenue_gross = 100, day_commission = 10,
           occupied_flag = 1\<rparr>] \<and>
   (\<Sum>b\<leftarrow>[clamp_booking 600 60]. cena b / of_int (pocet_noci b) *
      of_nat (length (filter (\<lambda>d. d \<le> end_date clamp_globals [clamp_booking 600 60])
                 [prichod b..odchod b - 1]))) = 200"
proof -
  have run: "daily_full clamp_globals [clamp_booking 600 60] =
     Inr [\<lparr>date = 19752, cal_month = 648, day_revenue_gross = 100, day_commission = 10,
           occupied_flag = 1\<rparr>,
          \<lparr>date = 19753, cal_month = 648, day_revenue_gross = 100, day_commission = 10,
           occupied_flag = 1\<rparr>]"
    using clamp_daily_full [of 600 60] by simp
  from revenue_conservation [OF run] have
    "(\<Sum>b\<leftarrow>[clamp_booking 600 60]. cena b / of_int (pocet_noci b) *
      of_nat (length (filter (\<lambda>d. d \<le> end_date clamp_globals [clamp_booking 600 60])
                 [prichod b..odchod b - 1]))) = 200"
    by simp
  with run show ?thesis by simp
qed

text \<open>
  C2: for a non-empty booking set (of bookings with a non-zero night count, so that
  nothing is raised) whose window is not empty, the daily table has exactly the days
  from the start to the end of the window, each once and in order; a day that no
  booking occupies is in the table with revenue 0, commission 0 and flag 0, and a day
  has flag 1 exactly when a booking occupies it.
\<close>

theorem daily_table_covers_window:
  assumes "df_b \<noteq> []" and "\<forall>r \<in> set df_b. pocet_noci r \<noteq> 0"
    and "start_date df_b \<le> end_date g df_b"
  shows "\<exists>df. daily_full g df_b = Inr df \<and>
           map date df = [start_date df_b..end_date g df_b] \<and>
           (\<forall>row \<in> set df.
              (\<not> (\<exists>b \<in> set df_b. prichod b \<le> date row \<and> date row < odchod b) \<longrightarrow>
                 day_revenue_gross row = 0 \<and> day_commission row = 0 \<and> occupied_flag row = 0) \<and>
              ((\<exists>b \<in> set df_b. prichod b \<le> date row \<and> date row < odchod b) \<longrightarrow>
                 occupied_flag row = 1))"
proof -
  let ?rows = "expanded g df_b"
  let ?df = "map (day_record ?rows) [start_date df_b..end_date g df_b]"
  have full: "daily_full g df_b = Inr ?df"
    using assms(1,2) by (rule daily_full_char)
  have dates: "map date ?df = [start_date df_b..end_date g df_b]"
    by (simp add: comp_def day_record_simps)
  have rows: "(\<not> (\<exists>b \<in> set df_b. prichod b \<le> date row \<and> date row < odchod b) \<longrightarrow>
        day_revenue_gross row = 0 \<and> day_commission row = 0 \<and> occupied_flag row = 0) \<and>
      ((\<exists>b \<in> set df_b. prichod b \<le> date row \<and> date row < odchod b) \<longrightarrow>
        occupied_flag row = 1)" if "row \<in> set ?df" for row
  proof -
    from that obtain d where d: "start_date df_b \<le> d" "d \<le> end_date g df_b"
      and row: "row = day_record ?rows d" by auto
    have occ: "d \<in> fst ` set ?rows \<longleftrightarrow> (\<exists>b \<in> set df_b. prichod b \<le> d \<and> d < odchod b)"
      using d(2) by (auto simp: dates_expanded)
    show ?thesis
      unfolding row day_record_simps(1) using occ day_record_free [of d ?rows] day_record_simps(4) [of ?rows d]
      by blast
  qed
  from full dates rows show ?thesis by blast
qed

theorem daily_table_covers_window_witness:
  "example_bookings \<noteq> [] \<and> map pocet_noci example_bookings = [3, 2, 2] \<and>
   start_date example_bookings \<le> end_date example_globals example_bookings \<and>
   (\<exists>df. daily_full example_globals example_bookings = Inr df \<and>
      map date df = [19752, 19753, 19754, 19755, 19756, 19757, 19758])"
proof -
  have h: "example_bookings \<noteq> []" "\<forall>r \<in> set example_bookings. pocet_noci r \<noteq> 0"
    "start_date example_bookings \<le> end_date example_globals example_bookings"
    by (simp_all add: example_window) (simp_all add: example_bookings_def)
  have "[start_date example_bookings..end_date example_globals example_bookings] =
      [19752, 19753, 19754, 19755, 19756, 19757, 19758]"
    by (simp add: example_window)
  moreover have "map pocet_noci example_bookings = [3, 2, 2]"
    by (simp add: example_bookings_def)
  ultimately show ?thesis using h(1,3) daily_table_covers_window [OF h] by metis
qed

text \<open>
  C3: for a non-empty booking set the window starts at the least arrival and ends at the
  lesser of the greatest departure minus one day and the cutoff minus one day; the
  calendar is the run of days between the two.
\<close>

theorem window_derivation:
  assumes "df_b \<noteq> []"
  shows "start_date df_b = Min (prichod ` set df_b) \<and>
         end_date g df_b = min (Max (odchod ` set df_b) - 1) (FILTER_END_EXCL g - 1) \<and>
         map fst (calendar g df_b) =
           [Min (prichod ` set df_b)..min (Max (odchod ` set df_b) - 1) (FILTER_END_EXCL g - 1)]"
proof -
  from assms have ne: "map prichod df_b \<noteq> []" "map odchod df_b \<noteq> []" by simp_all
  have s: "start_date df_b = Min (prichod ` set df_b)"
    using col_min_Min [OF ne(1)] by (simp add: start_date_def normalize_def)
  have e: "end_date g df_b = min (Max (odchod ` set df_b) - 1) (FILTER_END_EXCL g - 1)"
    using col_max_Max [OF ne(2)] by (simp add: end_date_def end_limit_def normalize_def)
  have "map fst (calendar g df_b) = [start_date df_b..end_date g df_b]"
    by (simp add: calendar_def date_range_def comp_def)
  with s e show ?thesis by simp
qed

theorem window_derivation_witness:
  "example_bookings \<noteq> [] \<and>
   start_date example_bookings = 19752 \<and>
   end_date example_globals example_bookings = 19758 \<and>
   Min (prichod ` set example_bookings) = 19752 \<and>
   min (Max (odchod ` set example_bookings) - 1) (FILTER_END_EXCL example_globals - 1) = 19758"
proof -
  have ne: "example_bookings \<noteq> []" by (simp add: example_bookings_def)
  from window_derivation [OF ne, of example_globals] ne show ?thesis
    by (simp add: example_window)
qed

text \<open>
  C4: the step for one booking appends one tuple (date, price / nights, commission /
  nights) for each day of the half-open range from arrival to departure that is not after
  the end of the window, in order, and nothing for the later days; it raises nothing
  for them. For the booking from 2024-01-30 to 2024-02-05 with the cutoff 2024-02-01
  the tuples are those of 2024-01-30 and 2024-01-31, the daily table has these two days
  and the monthly table has the row of January 2024 only.
\<close>

theorem night_expansion:
  assumes "pocet_noci r \<noteq> 0"
  shows "(\<exists>nights.
            booking_step e r rows =
              Inr (rows @ map (\<lambda>d. (d, cena r / of_int (pocet_noci r),
                                         provizia r / of_int (pocet_noci r))) nights) \<and>
            sorted nights \<and> distinct nights \<and>
            set nights = {d. prichod r \<le> d \<and> d < odchod r \<and> d \<le> e}) \<and>
         booking_step (end_date clamp_globals [clamp_booking p c]) (clamp_booking p c) [] =
           Inr [(days_from_civil 2024 1 30, p / 6, c / 6),
                (days_from_civil 2024 1 31, p / 6, c / 6)] \<and>
         (\<exists>df. daily_full clamp_globals [clamp_booking p c] = Inr df \<and>
            map (\<lambda>row. (date row, cal_month row)) df =
              [(days_from_civil 2024 1 30, month_of (days_from_civil 2024 1 30)),
               (days_from_civil 2024 1 31, month_of (days_from_civil 2024 1 30))]) \<and>
         (\<exists>monthly.
            compute_monthly_occupancy_revpar clamp_globals [clamp_booking p c] = Inr monthly \<and>
            map month monthly = [month_of (days_from_civil 2024 1 30)])"
proof -
  have "sorted (clamped_nights e r)"
    by (simp add: clamped_nights_def sorted_wrt_filter)
  then have general: "\<exists>nights.
      booking_step e r rows =
        Inr (rows @ map (\<lambda>d. (d, cena r / of_int (pocet_noci r),
                                   provizia r / of_int (pocet_noci r))) nights) \<and>
      sorted nights \<and> distinct nights \<and>
      set nights = {d. prichod r \<le> d \<and> d < odchod r \<and> d \<le> e}"
    using booking_step_ok [OF assms, of e rows] distinct_clamped_nights [of e r]
      set_clamped_nights [of e r]
    unfolding allocations_def by blast
  have daily: "\<exists>df. daily_full clamp_globals [clamp_booking p c] = Inr df \<and>
      map (\<lambda>row. (date row, cal_month row)) df =
        [(days_from_civil 2024 1 30, month_of (days_from_civil 2024 1 30)),
         (days_from_civil 2024 1 31, month_of (days_from_civil 2024 1 30))]"
    by (simp add: clamp_daily_full clamp_dates example_months)
  have monthly: "\<exists>monthly.
      compute_monthly_occupancy_revpar clamp_globals [clamp_booking p c] = Inr monthly \<and>
      map month monthly = [month_of (days_from_civil 2024 1 30)]"
    using clamp_compute [of p c] by (simp add: clamp_dates example_months)
  from general clamp_step daily monthly show ?thesis by blast
qed

theorem night_expansion_witness:
  "pocet_noci (clamp_booking 600 60) \<noteq> 0 \<and>
   booking_step 19753 (clamp_booking 600 60) [(19000, 1, 0)] =
     Inr [(19000, 1, 0), (19752, 100, 10), (19753, 100, 10)]"
proof -
  have nz: "pocet_noci (clamp_booking 600 60) \<noteq> 0" by (simp add: clamp_booking_def)
  have "booking_step 19753 (clamp_booking 600 60) [(19000, 1, 0)] =
     Inr [(19000, 1, 0), (19752, 100, 10), (19753, 100, 10)]"
    unfolding booking_step_ok [OF nz]
    by (simp add: allocations_def clamped_nights_def clamp_booking_def clamp_dates)
  with nz night_expansion [OF nz, of 19753 "[(19000, 1, 0)]" 600 60] show ?thesis by blast
qed

text \<open>
  C5: the monthly table has one row for each month that has a day in the window, in
  ascending order of the month. In a row, \<open>available_nights\<close> is the number of days of the
  window in that month, \<open>occupied_nights\<close> the number of rows of the daily table in that
  month with flag 1, the revenue and the commission are the totals of these rows, the
  net revenue is revenue minus commission, and the three ratios are 100 times occupied
  by available nights, revenue by available nights and net revenue by available nights.
\<close>

theorem monthly_rollup:
  assumes "compute_monthly_occupancy_revpar g df_b = Inr monthly"
  shows "\<exists>df. daily_full g df_b = Inr df \<and>
           sorted (map month monthly) \<and> distinct (map month monthly) \<and>
           set (map month monthly) = month_of ` {start_date df_b..end_date g df_b} \<and>
           (\<forall>k \<in> set monthly.
              available_nights k =
                length (filter (\<lambda>d. month_of d = month k) [start_date df_b..end_date g df_b]) \<and>
              occupied_nights k =
                length (filter (\<lambda>r. cal_month r = month k \<and> occupied_flag r = 1) df) \<and>
              revenue_gross k =
                sum_list (map day_revenue_gross (filter (\<lambda>r. cal_month r = month k) df)) \<and>
              commission k =
                sum_list (map day_commission (filter (\<lambda>r. cal_month r = month k) df)) \<and>
              revenue_net k = revenue_gross k - commission k \<and>
              occupancy_pct k =
                Finite (100 * of_nat (occupied_nights k) / of_nat (available_nights k)) \<and>
              revpar_gross k = Finite (revenue_gross k / of_nat (available_nights k)) \<and>
              revpar_net k = Finite (revenue_net k / of_nat (available_nights k)))"
proof -
  from assms obtain df where df: "daily_full g df_b = Inr df"
    and monthly: "monthly = map add_kpi_columns (monthly_agg df)"
    by (rule compute_Inr)
  note table = daily_full_Inr(3) [OF df]
  have keys: "map month monthly = groupby_keys cal_month df"
    unfolding monthly by (rule map_month_monthly)
  have months: "set (map month monthly) = month_of ` {start_date df_b..end_date g df_b}"
    unfolding keys set_groupby_keys table by (simp add: image_image day_record_simps)
  have row: "available_nights k =
        length (filter (\<lambda>d. month_of d = month k) [start_date df_b..end_date g df_b]) \<and>
      occupied_nights k =
        length (filter (\<lambda>r. cal_month r = month k \<and> occupied_flag r = 1) df) \<and>
      revenue_gross k =
        sum_list (map day_revenue_gross (filter (\<lambda>r. cal_month r = month k) df)) \<and>
      commission k =
        sum_list (map day_commission (filter (\<lambda>r. cal_month r = month k) df)) \<and>
      revenue_net k = revenue_gross k - commission k \<and>
      occupancy_pct k =
        Finite (100 * of_nat (occupied_nights k) / of_nat (available_nights k)) \<and>
      revpar_gross k = Finite (revenue_gross k / of_nat (available_nights k)) \<and>
      revpar_net k = Finite (revenue_net k / of_nat (available_nights k))"
    if "k \<in> set monthly" for k
  proof -
    from assms that obtain df' where df': "daily_full g df_b = Inr df'"
      and f: "available_nights k = length (month_group df' (month k))"
        "occupied_nights k = sum_list (map occupied_flag (month_group df' (month k)))"
        "revenue_gross k = sum_list (map day_revenue_gross (month_group df' (month k)))"
        "commission k = sum_list (map day_commission (month_group df' (month k)))"
        "revenue_net k = revenue_gross k - commission k"
        "occupancy_pct k =
           Finite (100 * of_nat (occupied_nights k) / of_nat (available_nights k))"
        "revpar_gross k = Finite (revenue_gross k / of_nat (available_nights k))"
        "revpar_net k = Finite (revenue_net k / of_nat (available_nights k))"
      by (rule monthly_rows)
    from df df' have same: "df' = df" by simp
    have avail: "available_nights k =
        length (filter (\<lambda>d. month_of d = month k) [start_date df_b..end_date g df_b])"
      unfolding f(1) same table month_group_day_records by simp
    have "occupied_nights k =
        length (filter (\<lambda>r. occupied_flag r = 1) (month_group df (month k)))"
      unfolding f(2) same table by (rule sum_list_flags [OF flags_le_1])
    then have occ: "occupied_nights k =
        length (filter (\<lambda>r. cal_month r = month k \<and> occupied_flag r = 1) df)"
      by (simp add: month_group_def conj_commute)
    from avail occ f(3,4) [unfolded same month_group_def] f(5,6,7,8) show ?thesis
      by blast
  qed
  have "sorted (map month monthly)" "distinct (map month monthly)"
    unfolding keys by (rule sorted_groupby_keys, rule distinct_groupby_keys)
  with df months row show ?thesis by blast
qed

theorem monthly_rollup_witness:
  "compute_monthly_occupancy_revpar example_globals example_bookings = Inr example_monthly \<and>
   map month example_monthly = [648, 649] \<and>
   map available_nights example_monthly = [2, 5] \<and>
   map (\<lambda>m. length (filter (\<lambda>d. month_of d = m)
          [start_date example_bookings..end_date example_globals example_bookings]))
     [648, 649] = [2, 5]"
proof -
  have months: "map month example_monthly = [648, 649]"
    "map available_nights example_monthly = [2, 5]"
    by (simp_all add: example_monthly_def)
  from monthly_rollup [OF example_compute] have
    "\<forall>k \<in> set example_monthly. available_nights k =
        length (filter (\<lambda>d. month_of d = month k)
          [start_date example_bookings..end_date example_globals example_bookings])"
    by blast
  then have "map (\<lambda>m. length (filter (\<lambda>d. month_of d = m)
          [start_date example_bookings..end_date example_globals example_bookings]))
     [648, 649] = [2, 5]"
    by (simp add: example_monthly_def)
  with example_compute months show ?thesis by simp
qed

text \<open>
  C6: with no booking the function stops with \<^verbatim>\<open>SystemExit\<close> before anything is
  computed (the daily table is not built either); with at least one booking it never
  stops with that error.
\<close>

theorem empty_input_fails:
  "compute_monthly_occupancy_revpar g [] = Inl SystemExit \<and>
   daily_full g [] = Inl SystemExit \<and>
   (df_b \<noteq> [] \<longrightarrow> compute_monthly_occupancy_revpar g df_b \<noteq> Inl SystemExit)"
proof -
  have "compute_monthly_occupancy_revpar g df_b \<noteq> Inl SystemExit" if "df_b \<noteq> []"
    using that unfolding compute_char daily_full_error by simp
  then show ?thesis by (simp add: compute_char daily_full_def)
qed

theorem empty_input_fails_witness:
  "example_bookings \<noteq> [] \<and>
   compute_monthly_occupancy_revpar example_globals example_bookings \<noteq> Inl SystemExit \<and>
   compute_monthly_occupancy_revpar example_globals [] = Inl SystemExit"
proof -
  have ne: "example_bookings \<noteq> []" by (simp add: example_bookings_def)
  from empty_input_fails [of example_globals example_bookings] ne show ?thesis by simp
qed



text \<open>
  C8: in every row of the monthly table the occupied nights are at most the available
  nights, and the occupancy percentage is a number between 0 and 100.
\<close>

theorem occupancy_bounds:
  assumes "compute_monthly_occupancy_revpar g df_b = Inr monthly" and "k \<in> set monthly"
  shows "occupied_nights k \<le> available_nights k \<and>
         (\<exists>q. occupancy_pct k = Finite q \<and> 0 \<le> q \<and> q \<le> 100)"
proof -
  from assms obtain df where
    table: "df = map (day_record (expanded g df_b)) [start_date df_b..end_date g df_b]"
    and avail: "available_nights k = length (month_group df (month k))"
    and pos: "0 < available_nights k"
    and occ: "occupied_nights k = sum_list (map occupied_flag (month_group df (month k)))"
    and pct: "occupancy_pct k =
           Finite (100 * of_nat (occupied_nights k) / of_nat (available_nights k))"
    by (rule monthly_rows)
  have le: "occupied_nights k \<le> available_nights k"
    unfolding occ avail table by (rule sum_list_flags_le [OF flags_le_1])
  let ?q = "100 * rat_of_nat (occupied_nights k) / rat_of_nat (available_nights k)"
  have "0 \<le> ?q" by simp
  moreover have "?q \<le> 100"
  proof -
    from le have "rat_of_nat (occupied_nights k) \<le> rat_of_nat (available_nights k)"
      by simp
    then have "100 * rat_of_nat (occupied_nights k) \<le> 100 * rat_of_nat (available_nights k)"
      by simp
    with pos show ?thesis by (simp add: divide_le_eq)
  qed
  ultimately show ?thesis using le pct by blast
qed

theorem occupancy_bounds_witness:
  "compute_monthly_occupancy_revpar example_globals example_bookings = Inr example_monthly \<and>
   example_monthly ! 1 \<in> set example_monthly \<and>
   occupied_nights (example_monthly ! 1) = 3 \<and> available_nights (example_monthly ! 1) = 5 \<and>
   occupancy_pct (example_monthly ! 1) = Finite 60"
proof -
  have k: "example_monthly ! 1 \<in> set example_monthly" by (simp add: example_monthly_def)
  have v: "occupied_nights (example_monthly ! 1) = 3 \<and>
      available_nights (example_monthly ! 1) = 5 \<and>
      occupancy_pct (example_monthly ! 1) = Finite 60"
    by (simp add: example_monthly_def)
  from example_compute k v occupancy_bounds [OF example_compute k] show ?thesis by blast
qed

text \<open>
  C9: the function is run on a store that holds the module state and every object that
  exists before the call, the frame of the bookings among them. A run reads the cutoff
  and the bookings, writes only objects that it has created itself, and returns the
  monthly table that the bookings and the cutoff determine. So a second run on the store
  that the first one leaves returns the same table, with the module state and every
  older object as they were; and a run in any other store with the same bookings and
  the same cutoff returns that table too.
\<close>

theorem repeated_runs_agree:
  assumes "objects s a = Some (Frame_bookings bs)" and "a < fresh s"
    and "objects t b = Some (Frame_bookings bs)" and "b < fresh t"
    and "FILTER_END_EXCL (module_state t) = FILTER_END_EXCL (module_state s)"
  shows "\<exists>r1 s1 r2 s2 r3 t3.
           run_compute a s = Some (r1, s1) \<and>
           run_compute a s1 = Some (r2, s2) \<and>
           run_compute b t = Some (r3, t3) \<and>
           returned s1 r1 = Some (compute_monthly_occupancy_revpar (module_state s) bs) \<and>
           returned s2 r2 = returned s1 r1 \<and>
           returned t3 r3 = returned s1 r1 \<and>
           module_state s2 = module_state s \<and>
           (\<forall>x < fresh s. objects s2 x = objects s x)"
proof -
  from run_compute_char [OF assms(1,2)] obtain r1 s1 where
    run1: "run_compute a s = Some (r1, s1)"
    and ret1: "returned s1 r1 = Some (compute_monthly_occupancy_revpar (module_state s) bs)"
    and frame1: "module_state s1 = module_state s" "fresh s \<le> fresh s1"
      "\<forall>x < fresh s. objects s1 x = objects s x"
    by blast
  from assms(1,2) frame1 have again: "objects s1 a = Some (Frame_bookings bs)" "a < fresh s1"
    by auto
  from run_compute_char [OF again] obtain r2 s2 where
    run2: "run_compute a s1 = Some (r2, s2)"
    and ret2: "returned s2 r2 = Some (compute_monthly_occupancy_revpar (module_state s1) bs)"
    and frame2: "module_state s2 = module_state s1" "fresh s1 \<le> fresh s2"
      "\<forall>x < fresh s1. objects s2 x = objects s1 x"
    by blast
  from run_compute_char [OF assms(3,4)] obtain r3 t3 where
    run3: "run_compute b t = Some (r3, t3)"
    and ret3: "returned t3 r3 = Some (compute_monthly_occupancy_revpar (module_state t) bs)"
    by blast
  have same2: "returned s2 r2 = returned s1 r1"
    using ret1 ret2 frame1(1) by simp
  have same3: "returned t3 r3 = returned s1 r1"
    using ret1 ret3 compute_cutoff_only [OF assms(5), of bs] by simp
  have old: "\<forall>x < fresh s. objects s2 x = objects s x"
    using frame1(2,3) frame2(3) by auto
  from run1 run2 run3 ret1 same2 same3 frame1(1) frame2(1) old show ?thesis
    by auto
qed

theorem repeated_runs_agree_witness:
  "objects example_store 0 = Some (Frame_bookings example_bookings) \<and> 0 < fresh example_store \<and>
   objects other_store 3 = Some (Frame_bookings example_bookings) \<and> 3 < fresh other_store \<and>
   FILTER_END_EXCL (module_state other_store) = FILTER_END_EXCL (module_state example_store) \<and>
   (\<exists>r1 s1 r2 s2 r3 t3.
      run_compute 0 example_store = Some (r1, s1) \<and>
      run_compute 0 s1 = Some (r2, s2) \<and>
      run_compute 3 other_store = Some (r3, t3) \<and>
      returned s1 r1 = Some (Inr example_monthly) \<and>
      returned s2 r2 = Some (Inr example_monthly) \<and>
      returned t3 r3 = Some (Inr example_monthly))"
proof -
  have h: "objects example_store 0 = Some (Frame_bookings example_bookings)"
    "0 < fresh example_store"
    "objects other_store 3 = Some (Frame_bookings example_bookings)"
    "3 < fresh other_store"
    "FILTER_END_EXCL (module_state other_store) = FILTER_END_EXCL (module_state example_store)"
    by (simp_all add: example_store_def other_store_def)
  have g: "module_state example_store = example_globals"
    by (simp add: example_store_def)
  from repeated_runs_agree [OF h] obtain r1 s1 r2 s2 r3 t3 where
    "run_compute 0 example_store = Some (r1, s1)" "run_compute 0 s1 = Some (r2, s2)"
    "run_compute 3 other_store = Some (r3, t3)"
    "returned s1 r1 = Some (compute_monthly_occupancy_revpar (module_state example_store)
       example_bookings)"
    "returned s2 r2 = returned s1 r1" "returned t3 r3 = returned s1 r1"
    by blast
  then have "\<exists>r1 s1 r2 s2 r3 t3.
      run_compute 0 example_store = Some (r1, s1) \<and>
      run_compute 0 s1 = Some (r2, s2) \<and>
      run_compute 3 other_store = Some (r3, t3) \<and>
      returned s1 r1 = Some (Inr example_monthly) \<and>
      returned s2 r2 = Some (Inr example_monthly) \<and>
      returned t3 r3 = Some (Inr example_monthly)"
    unfolding g example_compute by metis
  with h show ?thesis by blast
qed

end
